theory Spec2Isabelle
  imports Main
begin

section \<open>The Asana field migrator (asana-field-migrator.js)\<close>

text \<open>
  The script loads a CSV mapping of old enum option identifiers to new ones, fetches every
  task of a project page by page, and for each task whose old custom field carries a mapped
  value sends one PUT request that sets the new custom field.

  What the model keeps: the values that decide control flow, the requests issued to the
  remote API and the 200 ms timer, as a trace of events. What it leaves out: the text written
  with \<open>console.log\<close> in \<open>main\<close> and \<open>getAllProjectTasks\<close> (including the two
  coverage counters of lines 74 to 102, which are only printed), the access token, and the
  JSON encoding of request bodies.
\<close>

subsection \<open>JavaScript values and the mapping object\<close>

text \<open>
  The values that reach a truthiness test in the script: \<open>undefined\<close>, a string, or a member
  that every object created with \<open>{}\<close> inherits from \<open>Object.prototype\<close> (a function, or
  the prototype object itself for \<open>__proto__\<close>).
\<close>

datatype jsval = Undefined | Str string | Inherited string

fun truthy :: "jsval \<Rightarrow> bool" where
  "truthy Undefined = False"
| "truthy (Str s) = (s \<noteq> [])"
| "truthy (Inherited n) = True"

text \<open>The property names of \<open>Object.prototype\<close>.\<close>

definition object_prototype_names :: "string list" where
  "object_prototype_names =
     [''constructor'', ''__defineGetter__'', ''__defineSetter__'', ''hasOwnProperty'',
      ''__lookupGetter__'', ''__lookupSetter__'', ''isPrototypeOf'', ''propertyIsEnumerable'',
      ''toString'', ''valueOf'', ''__proto__'', ''toLocaleString'']"

text \<open>
  \<open>const mapping = {}\<close> (line 20): the object's own properties are a finite map from
  strings to strings; reads fall through to the prototype, and an assignment to
  \<open>__proto__\<close> with a string on the right is ignored by the prototype's setter.
\<close>

type_synonym jsobj = "string \<rightharpoonup> string"

definition js_get :: "jsobj \<Rightarrow> string \<Rightarrow> jsval" where
  "js_get obj k =
     (case obj k of
        Some v \<Rightarrow> Str v
      | None \<Rightarrow> if k \<in> set object_prototype_names then Inherited k else Undefined)"

definition js_set :: "jsobj \<Rightarrow> string \<Rightarrow> string \<Rightarrow> jsobj" where
  "js_set obj k v = (if k = ''__proto__'' then obj else obj(k \<mapsto> v))"

subsection \<open>loadMapping (lines 17 to 25)\<close>

text \<open>
  The file is read and handed to the CSV library with \<open>columns: true, trim: true\<close>. A data
  row is the pair of its \<open>old_value\<close> and \<open>new_value\<close> cells as they stand in the file. A
  cell is either unquoted, given by the text between the delimiters, or quoted, given by the
  text between its quotes. With \<open>trim\<close> the library drops the whitespace around a cell: at
  both ends of an unquoted cell, and outside the quotes of a quoted cell, whose content it
  keeps as written. The library's set of whitespace characters is the parameter \<open>ws\<close>.
\<close>

datatype cell = Unquoted string | Quoted string

type_synonym csv_row = "cell \<times> cell"

definition trim :: "(char \<Rightarrow> bool) \<Rightarrow> string \<Rightarrow> string" where
  "trim ws s = rev (dropWhile ws (rev (dropWhile ws s)))"

fun cell_value :: "(char \<Rightarrow> bool) \<Rightarrow> cell \<Rightarrow> string" where
  "cell_value ws (Unquoted s) = trim ws s"
| "cell_value ws (Quoted s) = s"

text \<open>The records the library returns: one pair of cell values per data row.\<close>

definition parse :: "(char \<Rightarrow> bool) \<Rightarrow> csv_row list \<Rightarrow> (string \<times> string) list" where
  "parse ws rows =
     map (\<lambda>(old_value, new_value). (cell_value ws old_value, cell_value ws new_value)) rows"

fun loadMapping_loop :: "jsobj \<Rightarrow> (string \<times> string) list \<Rightarrow> jsobj" where
  "loadMapping_loop mapping [] = mapping"
| "loadMapping_loop mapping (row # records) =
     loadMapping_loop (js_set mapping (fst row) (snd row)) records"

definition loadMapping :: "(char \<Rightarrow> bool) \<Rightarrow> csv_row list \<Rightarrow> jsobj" where
  "loadMapping ws rows = loadMapping_loop Map.empty (parse ws rows)"

subsection \<open>Tasks and HTTP responses\<close>

record enum_value =
  enum_gid :: "string option"

record custom_field =
  field_gid :: string
  cf_enum_value :: "enum_value option"

record task =
  task_gid :: string
  task_name :: string
  custom_fields :: "custom_field list option"

record next_page =
  offset :: "string option"

record page =
  data :: "task list"
  page_next :: "next_page option"

text \<open>
  What \<open>await fetch(...)\<close> gives: a response with \<open>ok\<close> set and its JSON body, a response
  with \<open>ok\<close> unset and its body text, or a rejected promise (no HTTP response at all).
\<close>

datatype 'a fetched = RespOk 'a | RespNotOk string | FetchRejected

datatype error = Error string | FetchFailed

subsection \<open>getAllProjectTasks (lines 30 to 105)\<close>

definition first_url :: "string \<Rightarrow> string" where
  "first_url projectGid =
     ''https://app.asana.com/api/1.0/tasks'' @ ''?project='' @ projectGid
       @ ''&opt_fields=name,custom_fields&limit=100''"

definition next_url :: "string \<Rightarrow> string \<Rightarrow> string" where
  "next_url projectGid off = first_url projectGid @ ''&offset='' @ off"

text \<open>\<open>data.next_page && data.next_page.offset\<close> (line 59): the cursor, when it is truthy.\<close>

definition cursor :: "page \<Rightarrow> string option" where
  "cursor d =
     (case page_next d of
        None \<Rightarrow> None
      | Some np \<Rightarrow>
          (case offset np of
             None \<Rightarrow> None
           | Some off \<Rightarrow> if off = [] then None else Some off))"

text \<open>
  The \<open>while (url)\<close> loop. The remote side is the list of the answers it gives to the
  successive requests; the loop takes one answer per request. When the answers run out while
  a request is outstanding the \<open>await\<close> never resumes and the function does not return:
  the value is \<open>None\<close>. Otherwise the value holds what the function returns or throws,
  and the URLs requested, in order.
\<close>

fun fetch_loop ::
  "string \<Rightarrow> page fetched list \<Rightarrow> string option \<Rightarrow> task list \<Rightarrow> string list
     \<Rightarrow> ((error + task list) \<times> string list) option" where
  "fetch_loop projectGid script None tasks reqs = Some (Inr tasks, reqs)"
| "fetch_loop projectGid [] (Some url) tasks reqs =
     (if url = [] then Some (Inr tasks, reqs) else None)"
| "fetch_loop projectGid (response # script) (Some url) tasks reqs =
     (if url = [] then Some (Inr tasks, reqs)
      else case response of
        FetchRejected \<Rightarrow> Some (Inl FetchFailed, reqs @ [url])
      | RespNotOk text \<Rightarrow> Some (Inl (Error (''Failed to fetch tasks: '' @ text)), reqs @ [url])
      | RespOk d \<Rightarrow>
          fetch_loop projectGid script
            (case cursor d of
               Some off \<Rightarrow> Some (next_url projectGid off)
             | None \<Rightarrow> None)
            (tasks @ data d) (reqs @ [url]))"

definition getAllProjectTasks ::
  "string \<Rightarrow> page fetched list \<Rightarrow> ((error + task list) \<times> string list) option" where
  "getAllProjectTasks projectGid script =
     fetch_loop projectGid script (Some (first_url projectGid)) [] []"

subsection \<open>updateTaskCustomField (lines 110 to 134)\<close>

datatype console =
  FailedToUpdate string string
| SuccessfullyUpdated string jsval

text \<open>
  Both branches of line 128 only write a line; neither has a \<open>return\<close>, so the call
  evaluates to \<open>undefined\<close>. A rejected \<open>fetch\<close> is not caught here.
\<close>

definition updateTaskCustomField ::
  "string \<Rightarrow> jsval \<Rightarrow> 'a fetched \<Rightarrow> error + (console \<times> jsval)" where
  "updateTaskCustomField taskGid newValue response =
     (case response of
        FetchRejected \<Rightarrow> Inl FetchFailed
      | RespNotOk text \<Rightarrow> Inr (FailedToUpdate taskGid text, Undefined)
      | RespOk _ \<Rightarrow> Inr (SuccessfullyUpdated taskGid newValue, Undefined))"

subsection \<open>main (lines 139 to 212)\<close>

datatype event = UpdateCall string jsval | Pause nat

record run_state =
  tasksAttempted :: nat
  tasksUpdated :: nat
  trace :: "event list"

text \<open>
  Lines 161 to 176: the scan for the old field, leaving \<open>oldEnumGid\<close> (\<open>None\<close> is
  \<open>null\<close>). The \<open>break\<close> of line 174 ends the scan at the first entry whose \<open>gid\<close> is
  the old field's. \<open>OLD_FIELD_GID\<close> is an environment variable: a string, or undefined.
  \<open>selected_gid\<close> is the test of line 168, \<open>field.enum_value && field.enum_value.gid\<close>:
  the identifier of the selected option when the descriptor is there and its \<open>gid\<close> is
  truthy.
\<close>

definition selected_gid :: "custom_field \<Rightarrow> string option" where
  "selected_gid field =
     (case cf_enum_value field of
        None \<Rightarrow> None
      | Some ev \<Rightarrow>
          (case enum_gid ev of
             None \<Rightarrow> None
           | Some g \<Rightarrow> if g = [] then None else Some g))"

fun findOldEnumGid :: "string option \<Rightarrow> custom_field list \<Rightarrow> string option" where
  "findOldEnumGid OLD_FIELD_GID [] = None"
| "findOldEnumGid OLD_FIELD_GID (field # customFields) =
     (if Some (field_gid field) = OLD_FIELD_GID then selected_gid field
      else findOldEnumGid OLD_FIELD_GID customFields)"

text \<open>
  The body of the \<open>for (const task of tasks)\<close> loop, lines 151 to 205. \<open>remote n\<close> is the
  remote side's answer to the PUT request number \<open>n\<close> of the run, counted from 0; the
  counter \<open>tasksAttempted\<close> is incremented once before each request (line 189), so it is that
  number. An exception leaves the loop: the value is then \<open>Inl\<close> with the error and the
  state reached.
\<close>

definition processTask ::
  "string option \<Rightarrow> jsobj \<Rightarrow> (nat \<Rightarrow> unit fetched) \<Rightarrow> run_state \<Rightarrow> task
     \<Rightarrow> (error \<times> run_state) + run_state" where
  "processTask OLD_FIELD_GID mapping remote s t =
     (case custom_fields t of
        None \<Rightarrow> Inr s
      | Some customFields \<Rightarrow>
          if customFields = [] then Inr s
          else
            (case findOldEnumGid OLD_FIELD_GID customFields of
               None \<Rightarrow> Inr s
             | Some oldEnumGid \<Rightarrow>
                 if oldEnumGid = [] then Inr s
                 else if truthy (js_get mapping oldEnumGid) then
                   (let newEnumGid = js_get mapping oldEnumGid;
                        s1 = s\<lparr>tasksAttempted := tasksAttempted s + 1,
                               trace := trace s @ [UpdateCall (task_gid t) newEnumGid]\<rparr>
                    in case updateTaskCustomField (task_gid t) newEnumGid
                              (remote (tasksAttempted s)) of
                         Inl e \<Rightarrow> Inl (e, s1)
                       | Inr (line, updateSuccess) \<Rightarrow>
                           (let s2 = (if truthy updateSuccess
                                      then s1\<lparr>tasksUpdated := tasksUpdated s1 + 1\<rparr>
                                      else s1)
                            in Inr (s2\<lparr>trace := trace s2 @ [Pause 200]\<rparr>)))
                 else Inr s))"

fun main_loop ::
  "string option \<Rightarrow> jsobj \<Rightarrow> (nat \<Rightarrow> unit fetched) \<Rightarrow> run_state \<Rightarrow> task list
     \<Rightarrow> (error \<times> run_state) + run_state" where
  "main_loop OLD_FIELD_GID mapping remote s [] = Inr s"
| "main_loop OLD_FIELD_GID mapping remote s (t # tasks) =
     (case processTask OLD_FIELD_GID mapping remote s t of
        Inl failure \<Rightarrow> Inl failure
      | Inr s' \<Rightarrow> main_loop OLD_FIELD_GID mapping remote s' tasks)"

definition initial_state :: run_state where
  "initial_state = \<lparr>tasksAttempted = 0, tasksUpdated = 0, trace = []\<rparr>"

text \<open>
  The whole run. The \<open>catch\<close> of line 209 ends the run on any exception; the result is
  \<open>None\<close> when the fetch never returns.
\<close>

definition main ::
  "(char \<Rightarrow> bool) \<Rightarrow> string option \<Rightarrow> string \<Rightarrow> csv_row list \<Rightarrow> page fetched list
     \<Rightarrow> (nat \<Rightarrow> unit fetched) \<Rightarrow> ((error \<times> run_state) + run_state) option" where
  "main ws OLD_FIELD_GID ASANA_PROJECT_GID rows script remote =
     (let mapping = loadMapping ws rows
      in case getAllProjectTasks ASANA_PROJECT_GID script of
           None \<Rightarrow> None
         | Some (Inl e, reqs) \<Rightarrow> Some (Inl (e, initial_state))
         | Some (Inr tasks, reqs) \<Rightarrow>
             Some (main_loop OLD_FIELD_GID mapping remote initial_state tasks))"

text \<open>The state a step or a run ends in, whether it ended normally or by an exception.\<close>

fun final_state :: "(error \<times> run_state) + run_state \<Rightarrow> run_state" where
  "final_state (Inl (e, s)) = s"
| "final_state (Inr s) = s"

subsection \<open>Auxiliary definitions for the statements\<close>

text \<open>
  The URLs requested while the pages \<open>ps\<close>, each with a cursor, are received, starting from
  \<open>url\<close>: \<open>url\<close> itself, then one URL per cursor.
\<close>

definition page_urls :: "string \<Rightarrow> string \<Rightarrow> page list \<Rightarrow> string list" where
  "page_urls projectGid url ps = url # map (\<lambda>p. next_url projectGid (the (cursor p))) ps"

text \<open>Sample data: a custom-field entry, a task, three remote sides for the PUT requests, and
  a page.\<close>

definition field_with :: "string \<Rightarrow> string option \<Rightarrow> custom_field" where
  "field_with g sel =
     \<lparr>field_gid = g,
      cf_enum_value = (case sel of None \<Rightarrow> None | Some v \<Rightarrow> Some \<lparr>enum_gid = Some v\<rparr>)\<rparr>"

definition task_with :: "string \<Rightarrow> custom_field list \<Rightarrow> task" where
  "task_with g fs = \<lparr>task_gid = g, task_name = ''Task '' @ g, custom_fields = Some fs\<rparr>"

definition always_ok :: "nat \<Rightarrow> unit fetched" where
  "always_ok n = RespOk ()"

definition always_not_ok :: "nat \<Rightarrow> unit fetched" where
  "always_not_ok n = RespNotOk ''Forbidden''"

definition always_rejected :: "nat \<Rightarrow> unit fetched" where
  "always_rejected n = FetchRejected"

definition page_with :: "task list \<Rightarrow> string option \<Rightarrow> page" where
  "page_with ts off =
     \<lparr>data = ts,
      page_next = (case off of None \<Rightarrow> None | Some c \<Rightarrow> Some \<lparr>offset = Some c\<rparr>)\<rparr>"

text \<open>
  A trace in which every update call is immediately followed by the pause of 200 ms, and
  every pause immediately follows an update call.
\<close>

fun well_paused :: "event list \<Rightarrow> bool" where
  "well_paused [] = True"
| "well_paused (UpdateCall g v # Pause n # es) = (n = 200 \<and> well_paused es)"
| "well_paused es = False"

section \<open>Properties\<close>

subsection \<open>The mapping loader\<close>

lemma loadMapping_loop_lookup:
  "k \<noteq> ''__proto__'' \<Longrightarrow>
   loadMapping_loop mapping records k =
     (case map_of (rev records) k of Some v \<Rightarrow> Some v | None \<Rightarrow> mapping k)"
proof (induction records arbitrary: mapping)
  case Nil
  then show ?case by simp
next
  case (Cons row records)
  obtain a b where row: "row = (a, b)" by (cases row)
  show ?case
    using Cons.prems Cons.IH [OF Cons.prems, of "js_set mapping (fst row) (snd row)"]
    by (simp add: row js_set_def map_add_def split: option.splits)
qed

lemma loadMapping_lookup:
  "k \<noteq> ''__proto__'' \<Longrightarrow> loadMapping ws rows k = map_of (rev (parse ws rows)) k"
  by (simp add: loadMapping_def loadMapping_loop_lookup split: option.splits)

lemma parse_append: "parse ws (xs @ ys) = parse ws xs @ parse ws ys"
  by (simp add: parse_def)

lemma parse_Cons: "parse ws ((a, b) # ys) = (cell_value ws a, cell_value ws b) # parse ws ys"
  by (simp add: parse_def)

lemma map_of_parse_None:
  "(\<forall>r \<in> set rows. cell_value ws (fst r) \<noteq> k) \<Longrightarrow> map_of (rev (parse ws rows)) k = None"
  by (auto simp: map_of_eq_None_iff parse_def image_iff split: prod.splits)

lemma loadMapping_last_row:
  assumes "cell_value ws old_value \<noteq> ''__proto__''"
    and "\<forall>r \<in> set post. cell_value ws (fst r) \<noteq> cell_value ws old_value"
  shows "loadMapping ws (pre @ (old_value, new_value) # post) (cell_value ws old_value)
           = Some (cell_value ws new_value)"
proof -
  have "map_of (rev (parse ws post)) (cell_value ws old_value) = None"
    using assms(2) by (rule map_of_parse_None)
  then show ?thesis
    by (simp add: loadMapping_lookup [OF assms(1)] parse_append parse_Cons map_add_def)
qed

lemma loadMapping_no_row:
  assumes "k \<noteq> ''__proto__''" and "\<forall>r \<in> set rows. cell_value ws (fst r) \<noteq> k"
  shows "loadMapping ws rows k = None"
  using assms(2) by (simp add: loadMapping_lookup [OF assms(1)] map_of_parse_None)

text \<open>
  C5, as the claim states it, fails twice. A data row whose \<open>old_value\<close> is empty (here two
  blanks, trimmed to nothing) does contribute an entry, under the empty key: the loop of
  lines 21 to 23 has no test on \<open>row.old_value\<close>. And the blanks inside a quoted cell are
  not trimmed: the row \<open>" 101 ", 201\<close> gives the key \<open>101\<close> with a blank on each side.
\<close>

theorem empty_old_value_has_entry:
  "loadMapping ((=) CHR '' '') [(Unquoted ''  '', Unquoted '' 201 '')] '''' = Some ''201''
   \<and> loadMapping ((=) CHR '' '') [(Quoted '' 101 '', Unquoted '' 201'')] '' 101 '' = Some ''201''
   \<and> loadMapping ((=) CHR '' '') [(Quoted '' 101 '', Unquoted '' 201'')] ''101'' = None"
  by (simp add: loadMapping_def parse_def trim_def js_set_def)

text \<open>
  C5, amended: every data row contributes an entry, whatever its \<open>old_value\<close>. The value of
  a cell is its text with the whitespace at both ends removed when the cell is unquoted, and
  its content as written when it is quoted. For a key \<open>k\<close> other than \<open>__proto__\<close>: when a
  row has an \<open>old_value\<close> cell of value \<open>k\<close> and no later row has, the mapping holds for
  \<open>k\<close> the value of the \<open>new_value\<close> cell of that row; when no row has an \<open>old_value\<close>
  cell of value \<open>k\<close>, the mapping has no entry for \<open>k\<close>.
\<close>

theorem loadMapping_entries:
  assumes "k \<noteq> ''__proto__''"
  shows "(rows = pre @ (old_value, new_value) # post \<and> cell_value ws old_value = k
            \<and> (\<forall>r \<in> set post. cell_value ws (fst r) \<noteq> k)
          \<longrightarrow> loadMapping ws rows k = Some (cell_value ws new_value))
       \<and> ((\<forall>r \<in> set rows. cell_value ws (fst r) \<noteq> k) \<longrightarrow> loadMapping ws rows k = None)
       \<and> cell_value ws (Unquoted raw) = rev (dropWhile ws (rev (dropWhile ws raw)))
       \<and> cell_value ws (Quoted content) = content"
proof (intro conjI impI)
  assume h: "rows = pre @ (old_value, new_value) # post \<and> cell_value ws old_value = k
            \<and> (\<forall>r \<in> set post. cell_value ws (fst r) \<noteq> k)"
  from h have rows: "rows = pre @ (old_value, new_value) # post" by (rule conjunct1)
  from h have k: "cell_value ws old_value = k" by (elim conjE)
  from h have post: "\<forall>r \<in> set post. cell_value ws (fst r) \<noteq> k" by (elim conjE)
  have "loadMapping ws (pre @ (old_value, new_value) # post) (cell_value ws old_value)
          = Some (cell_value ws new_value)"
    using assms post unfolding k [symmetric] by (rule loadMapping_last_row)
  then show "loadMapping ws rows k = Some (cell_value ws new_value)"
    unfolding rows k .
next
  assume "\<forall>r \<in> set rows. cell_value ws (fst r) \<noteq> k"
  with assms show "loadMapping ws rows k = None"
    by (rule loadMapping_no_row)
next
  show "cell_value ws (Unquoted raw) = rev (dropWhile ws (rev (dropWhile ws raw)))"
    by (simp add: trim_def)
next
  show "cell_value ws (Quoted content) = content"
    by simp
qed

text \<open>
  C5, witness: four rows. The second repeats the key of the first with blanks around its
  cells, the third has an empty \<open>old_value\<close>, the fourth a quoted \<open>old_value\<close> with blanks
  inside the quotes; and a key that no row has.
\<close>

theorem loadMapping_entries_witness:
  "loadMapping ((=) CHR '' '')
     [(Unquoted ''101'', Unquoted ''201''), (Unquoted '' 101'', Unquoted ''202 ''),
      (Unquoted '''', Unquoted ''203''), (Quoted '' 101 '', Unquoted ''204'')] ''101''
     = Some ''202''
   \<and> loadMapping ((=) CHR '' '')
     [(Unquoted ''101'', Unquoted ''201''), (Unquoted '' 101'', Unquoted ''202 ''),
      (Unquoted '''', Unquoted ''203''), (Quoted '' 101 '', Unquoted ''204'')] '' 101 ''
     = Some ''204''
   \<and> loadMapping ((=) CHR '' '')
     [(Unquoted ''101'', Unquoted ''201''), (Unquoted '' 101'', Unquoted ''202 ''),
      (Unquoted '''', Unquoted ''203''), (Quoted '' 101 '', Unquoted ''204'')] ''104''
     = None"
  using loadMapping_entries [where k = "''101''" and ws = "(=) CHR '' ''"
          and rows = "[(Unquoted ''101'', Unquoted ''201''), (Unquoted '' 101'', Unquoted ''202 ''),
                       (Unquoted '''', Unquoted ''203''), (Quoted '' 101 '', Unquoted ''204'')]"
          and pre = "[(Unquoted ''101'', Unquoted ''201'')]"
          and old_value = "Unquoted '' 101''" and new_value = "Unquoted ''202 ''"
          and post = "[(Unquoted '''', Unquoted ''203''), (Quoted '' 101 '', Unquoted ''204'')]"]
        loadMapping_entries [where k = "'' 101 ''" and ws = "(=) CHR '' ''"
          and rows = "[(Unquoted ''101'', Unquoted ''201''), (Unquoted '' 101'', Unquoted ''202 ''),
                       (Unquoted '''', Unquoted ''203''), (Quoted '' 101 '', Unquoted ''204'')]"
          and pre = "[(Unquoted ''101'', Unquoted ''201''), (Unquoted '' 101'', Unquoted ''202 ''),
                      (Unquoted '''', Unquoted ''203'')]"
          and old_value = "Quoted '' 101 ''" and new_value = "Unquoted ''204''"
          and post = "[]"]
        loadMapping_entries [where k = "''104''" and ws = "(=) CHR '' ''"
          and rows = "[(Unquoted ''101'', Unquoted ''201''), (Unquoted '' 101'', Unquoted ''202 ''),
                       (Unquoted '''', Unquoted ''203''), (Quoted '' 101 '', Unquoted ''204'')]"
          and pre = "[]" and old_value = "Unquoted ''''" and new_value = "Unquoted ''''"
          and post = "[]"]
  by (simp add: trim_def)

text \<open>
  C6: the loader is a function of the rows, so equal contents give equal mappings; and for
  every key but one the last row wins (\<open>loadMapping_last_row\<close>). The claim fails for the
  key \<open>__proto__\<close>: the assignment of line 22 does not create a property of that name, and
  reading it back gives the prototype object, not the \<open>new_value\<close> of the last row.
\<close>

theorem proto_row_is_not_bound:
  "loadMapping ((=) CHR '' '')
     [(Unquoted ''__proto__'', Unquoted ''201''), (Unquoted ''__proto__'', Unquoted ''202'')]
     ''__proto__'' = None
   \<and> js_get (loadMapping ((=) CHR '' '')
        [(Unquoted ''__proto__'', Unquoted ''201''), (Unquoted ''__proto__'', Unquoted ''202'')])
        ''__proto__'' = Inherited ''__proto__''"
  by (simp add: loadMapping_def parse_def trim_def js_set_def js_get_def
      object_prototype_names_def)

subsection \<open>The task fetcher\<close>

lemma first_url_nonempty: "first_url projectGid \<noteq> []"
  by (simp add: first_url_def)

lemma next_url_nonempty: "next_url projectGid off \<noteq> []"
  by (simp add: next_url_def first_url_def)

lemma last_page_urls_nonempty: "url \<noteq> [] \<Longrightarrow> last (page_urls pg url ps) \<noteq> []"
  by (induction ps rule: rev_induct) (simp_all add: page_urls_def next_url_nonempty)

text \<open>Pages that carry a cursor are consumed one request each, and the loop goes on.\<close>

lemma fetch_loop_pages:
  assumes "\<forall>p \<in> set ps. cursor p \<noteq> None" and "url \<noteq> []"
  shows "fetch_loop pg (map RespOk ps @ rest) (Some url) tasks reqs =
           fetch_loop pg rest (Some (last (page_urls pg url ps)))
             (tasks @ concat (map data ps)) (reqs @ butlast (page_urls pg url ps))"
  using assms
proof (induction ps arbitrary: url tasks reqs)
  case Nil
  then show ?case by (simp add: page_urls_def)
next
  case (Cons p ps)
  from Cons.prems obtain off where off: "cursor p = Some off" by auto
  have rest: "\<forall>q \<in> set ps. cursor q \<noteq> None" using Cons.prems by simp
  have nu: "next_url pg off \<noteq> []" by (rule next_url_nonempty)
  show ?case
    using Cons.prems(2) off
      Cons.IH [OF rest nu, where tasks = "tasks @ data p" and reqs = "reqs @ [url]"]
    by (simp add: page_urls_def)
qed

lemma fetch_loop_last:
  assumes "\<forall>p \<in> set ps. cursor p \<noteq> None" and "url \<noteq> []" and "cursor q = None"
  shows "fetch_loop pg (map RespOk ps @ RespOk q # rest) (Some url) tasks reqs =
           Some (Inr (tasks @ concat (map data ps) @ data q), reqs @ page_urls pg url ps)"
proof -
  have ne: "last (page_urls pg url ps) \<noteq> []" using assms(2) by (rule last_page_urls_nonempty)
  have xs: "page_urls pg url ps \<noteq> []" by (simp add: page_urls_def)
  have "fetch_loop pg (RespOk q # rest) (Some (last (page_urls pg url ps)))
          (tasks @ concat (map data ps)) (reqs @ butlast (page_urls pg url ps))
        = Some (Inr (tasks @ concat (map data ps) @ data q),
                reqs @ butlast (page_urls pg url ps) @ [last (page_urls pg url ps)])"
    using ne assms(3) by simp
  then show ?thesis
    using fetch_loop_pages [OF assms(1) assms(2)] xs by simp
qed

lemma fetch_loop_not_ok:
  assumes "\<forall>p \<in> set ps. cursor p \<noteq> None" and "url \<noteq> []"
  shows "fetch_loop pg (map RespOk ps @ RespNotOk text # rest) (Some url) tasks reqs =
           Some (Inl (Error (''Failed to fetch tasks: '' @ text)), reqs @ page_urls pg url ps)"
proof -
  have ne: "last (page_urls pg url ps) \<noteq> []" using assms(2) by (rule last_page_urls_nonempty)
  have xs: "page_urls pg url ps \<noteq> []" by (simp add: page_urls_def)
  have "fetch_loop pg (RespNotOk text # rest) (Some (last (page_urls pg url ps)))
          (tasks @ concat (map data ps)) (reqs @ butlast (page_urls pg url ps))
        = Some (Inl (Error (''Failed to fetch tasks: '' @ text)),
                reqs @ butlast (page_urls pg url ps) @ [last (page_urls pg url ps)])"
    using ne by simp
  then show ?thesis
    using fetch_loop_pages [OF assms(1) assms(2)] xs by simp
qed

lemma fetch_loop_pending:
  assumes "\<forall>p \<in> set ps. cursor p \<noteq> None" and "url \<noteq> []"
  shows "fetch_loop pg (map RespOk ps) (Some url) tasks reqs = None"
proof -
  have ne: "last (page_urls pg url ps) \<noteq> []" using assms(2) by (rule last_page_urls_nonempty)
  show ?thesis
    using fetch_loop_pages [OF assms(1) assms(2), where rest = "[]"] ne by simp
qed

text \<open>
  C7: let the remote side answer with the pages \<open>ps\<close>, each carrying a cursor, then with a
  page \<open>q\<close> that carries none (whatever it would answer after that, \<open>rest\<close>). Then the
  fetcher returns the tasks of \<open>ps\<close> and \<open>q\<close> concatenated in page order, whose number is
  the sum of the page lengths; it has issued one request per page, the first without offset
  and each next one with the cursor of the page before; the answers \<open>rest\<close> are never
  requested. As long as every page received carries a cursor the fetcher has not returned.
\<close>

theorem getAllProjectTasks_concatenates_pages:
  assumes "\<forall>p \<in> set ps. cursor p \<noteq> None" and "cursor q = None"
  shows "getAllProjectTasks projectGid (map RespOk ps @ RespOk q # rest) =
           Some (Inr (concat (map data (ps @ [q]))),
                 page_urls projectGid (first_url projectGid) ps)
       \<and> length (concat (map data (ps @ [q]))) = sum_list (map (\<lambda>p. length (data p)) (ps @ [q]))
       \<and> length (page_urls projectGid (first_url projectGid) ps) = length (ps @ [q])
       \<and> getAllProjectTasks projectGid (map RespOk ps) = None"
proof -
  have a: "getAllProjectTasks projectGid (map RespOk ps @ RespOk q # rest) =
           Some (Inr (concat (map data (ps @ [q]))),
                 page_urls projectGid (first_url projectGid) ps)"
    unfolding getAllProjectTasks_def
    using fetch_loop_last [OF assms(1) first_url_nonempty assms(2)]
    by simp
  have b: "length (concat (map data (ps @ [q])))
             = sum_list (map (\<lambda>p. length (data p)) (ps @ [q]))"
    by (simp add: length_concat comp_def)
  have c: "length (page_urls projectGid (first_url projectGid) ps) = length (ps @ [q])"
    by (simp add: page_urls_def)
  have d: "getAllProjectTasks projectGid (map RespOk ps) = None"
    unfolding getAllProjectTasks_def
    using fetch_loop_pending [OF assms(1) first_url_nonempty] by simp
  show ?thesis using a b c d by simp
qed

text \<open>
  C7, witness: a first page with cursor \<open>x\<close>, a second page without cursor, and a third
  answer that is never asked for.
\<close>

theorem getAllProjectTasks_concatenates_pages_witness:
  "getAllProjectTasks ''P''
     [RespOk (page_with [task_with ''A'' [], task_with ''B'' []] (Some ''x'')),
      RespOk (page_with [task_with ''C'' []] None),
      RespOk (page_with [task_with ''D'' []] None)]
   = Some (Inr [task_with ''A'' [], task_with ''B'' [], task_with ''C'' []],
           [first_url ''P'', next_url ''P'' ''x''])"
  using getAllProjectTasks_concatenates_pages
          [where ps = "[page_with [task_with ''A'' [], task_with ''B'' []] (Some ''x'')]"
             and q = "page_with [task_with ''C'' []] None"
             and rest = "[RespOk (page_with [task_with ''D'' []] None)]"
             and projectGid = "''P''"]
  by (simp add: page_with_def cursor_def page_urls_def)

text \<open>
  C8: when a request is answered with a response that is not ok, after any number of pages
  received, the fetcher throws an error whose message holds the body text and returns no
  task list; \<open>main\<close> then ends in its \<open>catch\<close> without having called the updater.
\<close>

theorem getAllProjectTasks_aborts_on_failure:
  assumes "\<forall>p \<in> set ps. cursor p \<noteq> None"
  shows "getAllProjectTasks projectGid (map RespOk ps @ RespNotOk body # rest) =
           Some (Inl (Error (''Failed to fetch tasks: '' @ body)),
                 page_urls projectGid (first_url projectGid) ps)
       \<and> main ws OLD projectGid rows (map RespOk ps @ RespNotOk body # rest) remote =
           Some (Inl (Error (''Failed to fetch tasks: '' @ body), initial_state))"
proof -
  have a: "getAllProjectTasks projectGid (map RespOk ps @ RespNotOk body # rest) =
           Some (Inl (Error (''Failed to fetch tasks: '' @ body)),
                 page_urls projectGid (first_url projectGid) ps)"
    unfolding getAllProjectTasks_def
    using fetch_loop_not_ok [OF assms(1) first_url_nonempty]
    by simp
  then show ?thesis by (simp add: main_def)
qed

text \<open>C8, witness: one page of two tasks, then a response that is not ok.\<close>

theorem getAllProjectTasks_aborts_on_failure_witness:
  "getAllProjectTasks ''P''
     [RespOk (page_with [task_with ''A'' [], task_with ''B'' []] (Some ''x'')),
      RespNotOk ''Forbidden'']
   = Some (Inl (Error ''Failed to fetch tasks: Forbidden''),
           [first_url ''P'', next_url ''P'' ''x''])"
  using getAllProjectTasks_aborts_on_failure
          [where ps = "[page_with [task_with ''A'' [], task_with ''B'' []] (Some ''x'')]"
             and body = "''Forbidden''" and rest = "[]" and projectGid = "''P''"]
  by (simp add: page_with_def cursor_def page_urls_def)

subsection \<open>The driver: one task\<close>

lemma findOldEnumGid_first:
  assumes "\<forall>g \<in> set pre. Some (field_gid g) \<noteq> OLD" and "Some (field_gid f) = OLD"
  shows "findOldEnumGid OLD (pre @ f # post) = selected_gid f"
  using assms by (induction pre) simp_all

lemma selected_gid_nonempty: "selected_gid f = Some k \<Longrightarrow> k \<noteq> []"
  by (auto simp: selected_gid_def split: option.splits if_splits)

lemma findOldEnumGid_nonempty: "findOldEnumGid OLD fs = Some k \<Longrightarrow> k \<noteq> []"
  by (induction fs) (auto split: if_splits dest: selected_gid_nonempty)

lemma processTask_no_fields:
  "custom_fields t = None \<or> custom_fields t = Some [] \<Longrightarrow>
   processTask OLD mapping remote s t = Inr s"
  by (auto simp: processTask_def)

lemma processTask_no_old_value:
  "custom_fields t = Some fs \<Longrightarrow> findOldEnumGid OLD fs = None \<Longrightarrow>
   processTask OLD mapping remote s t = Inr s"
  by (simp add: processTask_def)

lemma processTask_no_mapping:
  "custom_fields t = Some fs \<Longrightarrow> findOldEnumGid OLD fs = Some k \<Longrightarrow>
   \<not> truthy (js_get mapping k) \<Longrightarrow> processTask OLD mapping remote s t = Inr s"
  by (simp add: processTask_def)

text \<open>The attempted-update path, lines 186 to 202.\<close>

lemma processTask_attempt:
  assumes "custom_fields t = Some fs" and "findOldEnumGid OLD fs = Some k"
    and "truthy (js_get mapping k)"
  shows "processTask OLD mapping remote s t =
           (if remote (tasksAttempted s) = FetchRejected
            then Inl (FetchFailed,
                      s\<lparr>tasksAttempted := tasksAttempted s + 1,
                        trace := trace s @ [UpdateCall (task_gid t) (js_get mapping k)]\<rparr>)
            else Inr (s\<lparr>tasksAttempted := tasksAttempted s + 1,
                        trace := trace s
                          @ [UpdateCall (task_gid t) (js_get mapping k), Pause 200]\<rparr>))"
proof -
  have k: "k \<noteq> []" using assms(2) by (rule findOldEnumGid_nonempty)
  have fs: "fs \<noteq> []" using assms(2) by auto
  show ?thesis
    using assms k fs
    by (cases "remote (tasksAttempted s)")
       (simp_all add: processTask_def updateTaskCustomField_def Let_def)
qed

text \<open>A task is either skipped, the state unchanged, or on the attempted-update path.\<close>

lemma processTask_cases:
  "processTask OLD mapping remote s t = Inr s
   \<or> (\<exists>v. truthy v \<and> processTask OLD mapping remote s t =
           (if remote (tasksAttempted s) = FetchRejected
            then Inl (FetchFailed,
                      s\<lparr>tasksAttempted := tasksAttempted s + 1,
                        trace := trace s @ [UpdateCall (task_gid t) v]\<rparr>)
            else Inr (s\<lparr>tasksAttempted := tasksAttempted s + 1,
                        trace := trace s @ [UpdateCall (task_gid t) v, Pause 200]\<rparr>)))"
proof (cases "custom_fields t")
  case None
  then show ?thesis by (simp add: processTask_no_fields)
next
  case (Some fs)
  note fields = this
  show ?thesis
  proof (cases "findOldEnumGid OLD fs")
    case None
    with fields show ?thesis by (simp add: processTask_no_old_value)
  next
    case (Some k)
    show ?thesis
    proof (cases "truthy (js_get mapping k)")
      case True
      from processTask_attempt [OF fields Some True]
      show ?thesis using True by blast
    next
      case False
      from processTask_no_mapping [OF fields Some False]
      show ?thesis by simp
    qed
  qed
qed

text \<open>
  No path through the loop body changes \<open>tasksUpdated\<close>: the value tested on line 193 is
  always \<open>undefined\<close>.
\<close>

lemma tasksUpdated_unchanged:
  "tasksUpdated (final_state (processTask OLD mapping remote s t)) = tasksUpdated s"
  using processTask_cases [of OLD mapping remote s t] by auto

lemma main_loop_tasksUpdated:
  "tasksUpdated (final_state (main_loop OLD mapping remote s tasks)) = tasksUpdated s"
proof (induction tasks arbitrary: s)
  case Nil
  then show ?case by simp
next
  case (Cons t tasks)
  show ?case
  proof (cases "processTask OLD mapping remote s t")
    case (Inl failure)
    then show ?thesis using tasksUpdated_unchanged [of OLD mapping remote s t] by simp
  next
    case (Inr s')
    then show ?thesis
      using tasksUpdated_unchanged [of OLD mapping remote s t] Cons.IH [of s'] by simp
  qed
qed

text \<open>The tasks are visited in list order, each from the state the one before left.\<close>

lemma main_loop_append:
  "main_loop OLD mapping remote s (ts @ us) =
     (case main_loop OLD mapping remote s ts of
        Inl failure \<Rightarrow> Inl failure
      | Inr s' \<Rightarrow> main_loop OLD mapping remote s' us)"
  by (induction ts arbitrary: s) (simp_all split: sum.splits)

text \<open>
  C1: the updater does not throw on a response that is not ok, but what it returns does not
  tell success from failure. On the input below the PUT request is answered with an ok
  response; the updater returns \<open>undefined\<close>, as it does on a response that is not ok, and
  the driver counts one attempted update and no successful one.
\<close>

theorem updater_success_not_reported:
  "updateTaskCustomField ''A'' (Str ''201'') (RespOk ()) =
     Inr (SuccessfullyUpdated ''A'' (Str ''201''), Undefined)
   \<and> updateTaskCustomField ''A'' (Str ''201'') (RespNotOk ''Forbidden'' :: unit fetched) =
     Inr (FailedToUpdate ''A'' ''Forbidden'', Undefined)
   \<and> processTask (Some ''F_OLD'') (loadMapping ((=) CHR '' '') [(Unquoted ''101'', Unquoted ''201'')]) always_ok
        initial_state (task_with ''A'' [field_with ''F_OLD'' (Some ''101'')])
      = Inr \<lparr>tasksAttempted = 1, tasksUpdated = 0,
             trace = [UpdateCall ''A'' (Str ''201''), Pause 200]\<rparr>"
  by (simp add: updateTaskCustomField_def processTask_def loadMapping_def parse_def trim_def
      js_set_def js_get_def always_ok_def initial_state_def task_with_def field_with_def
      selected_gid_def)

text \<open>
  C2, as the claim states it, fails: the mapping has an entry for the selected value
  \<open>101\<close>, with an empty \<open>new_value\<close>, and the driver makes no update call for the task.
  Line 186 tests the mapped value for truthiness, and the empty string is falsy.
\<close>

theorem empty_new_value_no_update:
  "loadMapping ((=) CHR '' '') [(Unquoted ''101'', Unquoted '''')] ''101'' = Some ''''
   \<and> processTask (Some ''F_OLD'') (loadMapping ((=) CHR '' '') [(Unquoted ''101'', Unquoted '''')]) always_ok
        initial_state (task_with ''A'' [field_with ''F_OLD'' (Some ''101'')])
      = Inr initial_state"
  by (simp add: processTask_def loadMapping_def parse_def trim_def
      js_set_def js_get_def initial_state_def task_with_def field_with_def
      selected_gid_def)

text \<open>
  C2, amended: for every task whose first entry for the old field has a selected value \<open>k\<close>
  for which the mapping holds a non-empty new identifier \<open>v\<close>, the driver makes exactly one
  update call, for that task and with new value \<open>v\<close>, and increments \<open>tasksAttempted\<close>
  by one. The call is followed by the pause, unless the request was rejected.
\<close>

theorem mapped_value_one_update:
  assumes "custom_fields t = Some (pre @ f # post)"
    and "\<forall>g \<in> set pre. Some (field_gid g) \<noteq> OLD" and "Some (field_gid f) = OLD"
    and "selected_gid f = Some k" and "mapping k = Some v" and "v \<noteq> []"
  shows "\<exists>pause. (pause = [] \<or> pause = [Pause 200])
           \<and> trace (final_state (processTask OLD mapping remote s t))
               = trace s @ UpdateCall (task_gid t) (Str v) # pause
           \<and> tasksAttempted (final_state (processTask OLD mapping remote s t))
               = tasksAttempted s + 1"
proof -
  have find: "findOldEnumGid OLD (pre @ f # post) = Some k"
    using findOldEnumGid_first [OF assms(2) assms(3)] assms(4) by simp
  have get: "js_get mapping k = Str v" using assms(5) by (simp add: js_get_def)
  have tr: "truthy (js_get mapping k)" using get assms(6) by simp
  show ?thesis
    using processTask_attempt [OF assms(1) find tr, of remote s] get
    by (cases "remote (tasksAttempted s) = FetchRejected") simp_all
qed

text \<open>
  C2, witness: task A of the specification's scenario, whose old field has the value
  \<open>101\<close>, with the mapping of \<open>101\<close> to \<open>201\<close> and \<open>102\<close> to \<open>202\<close>.
\<close>

theorem mapped_value_one_update_witness:
  "trace (final_state (processTask (Some ''F_OLD'')
       (loadMapping ((=) CHR '' '') [(Unquoted ''101'', Unquoted ''201''), (Unquoted ''102'', Unquoted ''202'')]) always_not_ok
       initial_state (task_with ''A'' [field_with ''F_OLD'' (Some ''101'')])))
     = [UpdateCall ''A'' (Str ''201''), Pause 200]
   \<and> tasksAttempted (final_state (processTask (Some ''F_OLD'')
       (loadMapping ((=) CHR '' '') [(Unquoted ''101'', Unquoted ''201''), (Unquoted ''102'', Unquoted ''202'')]) always_not_ok
       initial_state (task_with ''A'' [field_with ''F_OLD'' (Some ''101'')]))) = 1"
  using mapped_value_one_update
          [where t = "task_with ''A'' [field_with ''F_OLD'' (Some ''101'')]"
             and pre = "[]" and f = "field_with ''F_OLD'' (Some ''101'')" and post = "[]"
             and OLD = "Some ''F_OLD''" and k = "''101''" and v = "''201''"
             and mapping = "loadMapping ((=) CHR '' '') [(Unquoted ''101'', Unquoted ''201''), (Unquoted ''102'', Unquoted ''202'')]"
             and remote = always_not_ok and s = initial_state]
  by (simp add: updateTaskCustomField_def processTask_def loadMapping_def parse_def trim_def
      js_set_def js_get_def always_not_ok_def initial_state_def task_with_def field_with_def
      selected_gid_def)

text \<open>
  C3: the claim fails on the input below. The selected value \<open>constructor\<close> is no key of
  the loaded mapping, yet line 186 reads the member that the mapping object inherits under
  that name, which is truthy, and the updater is called with it.
\<close>

theorem inherited_name_is_updated:
  "loadMapping ((=) CHR '' '') [(Unquoted ''101'', Unquoted ''201'')] ''constructor'' = None
   \<and> processTask (Some ''F_OLD'') (loadMapping ((=) CHR '' '') [(Unquoted ''101'', Unquoted ''201'')]) always_ok
        initial_state (task_with ''D'' [field_with ''F_OLD'' (Some ''constructor'')])
      = Inr \<lparr>tasksAttempted = 1, tasksUpdated = 0,
             trace = [UpdateCall ''D'' (Inherited ''constructor''), Pause 200]\<rparr>"
  by (simp add: updateTaskCustomField_def processTask_def loadMapping_def parse_def trim_def
      js_set_def js_get_def always_ok_def initial_state_def task_with_def field_with_def
      selected_gid_def object_prototype_names_def)

text \<open>
  For a selected value that is neither a key of the mapping nor a name inherited from
  \<open>Object.prototype\<close> the task is skipped.
\<close>

lemma unmapped_value_skipped:
  assumes "custom_fields t = Some (pre @ f # post)"
    and "\<forall>g \<in> set pre. Some (field_gid g) \<noteq> OLD" and "Some (field_gid f) = OLD"
    and "selected_gid f = Some k" and "mapping k = None" and "k \<notin> set object_prototype_names"
  shows "processTask OLD mapping remote s t = Inr s"
proof -
  have find: "findOldEnumGid OLD (pre @ f # post) = Some k"
    using findOldEnumGid_first [OF assms(2) assms(3)] assms(4) by simp
  have "\<not> truthy (js_get mapping k)" using assms(5) assms(6) by (simp add: js_get_def)
  with assms(1) find show ?thesis by (rule processTask_no_mapping)
qed

text \<open>
  C4: a task without custom fields (the list absent or empty), or whose entry for the old
  field (the first one in the list) carries no selected-value descriptor, leaves the state
  as it was: no update call is made for it.
\<close>

theorem no_update_without_selected_value:
  assumes "custom_fields t = None \<or> custom_fields t = Some []
           \<or> (custom_fields t = Some (pre @ f # post)
                 \<and> (\<forall>g \<in> set pre. Some (field_gid g) \<noteq> OLD)
                 \<and> Some (field_gid f) = OLD \<and> cf_enum_value f = None)"
  shows "processTask OLD mapping remote s t = Inr s"
  using assms
proof (elim disjE conjE)
  assume "custom_fields t = None"
  then show ?thesis by (simp add: processTask_no_fields)
next
  assume "custom_fields t = Some []"
  then show ?thesis by (simp add: processTask_no_fields)
next
  assume fs: "custom_fields t = Some (pre @ f # post)"
    and pre: "\<forall>g \<in> set pre. Some (field_gid g) \<noteq> OLD"
    and f: "Some (field_gid f) = OLD" and none: "cf_enum_value f = None"
  have "findOldEnumGid OLD (pre @ f # post) = None"
    using findOldEnumGid_first [OF pre f] none by (simp add: selected_gid_def)
  with fs show ?thesis by (rule processTask_no_old_value)
qed

text \<open>
  C4, witness: task C of the specification's scenario, whose old field has no value, with a
  mapping and a remote side that would let an update through.
\<close>

theorem no_update_without_selected_value_witness:
  "processTask (Some ''F_OLD'') (loadMapping ((=) CHR '' '') [(Unquoted ''101'', Unquoted ''201'')]) always_ok
     initial_state (task_with ''C'' [field_with ''F_NEW'' (Some ''101''), field_with ''F_OLD'' None])
   = Inr initial_state"
  using no_update_without_selected_value
          [where t = "task_with ''C'' [field_with ''F_NEW'' (Some ''101''), field_with ''F_OLD'' None]"
             and pre = "[field_with ''F_NEW'' (Some ''101'')]"
             and f = "field_with ''F_OLD'' None" and post = "[]"
             and OLD = "Some ''F_OLD''"]
  by (simp add: task_with_def field_with_def)

lemma findOldEnumGid_absent:
  "\<forall>g \<in> set fs. Some (field_gid g) \<noteq> OLD \<Longrightarrow> findOldEnumGid OLD fs = None"
  by (induction fs) simp_all

text \<open>
  C9, as the claim states it, fails: when the PUT request of an attempted update is rejected
  (no HTTP response at all), the attempt has been counted and the call made, but the
  exception leaves the loop before the timer of line 201, and no pause is performed.
\<close>

theorem rejected_update_has_no_pause:
  "processTask (Some ''F_OLD'')
     (loadMapping ((=) CHR '' '') [(Unquoted ''101'', Unquoted ''201'')]) always_rejected
     initial_state (task_with ''A'' [field_with ''F_OLD'' (Some ''101'')])
   = Inl (FetchFailed,
          \<lparr>tasksAttempted = 1, tasksUpdated = 0, trace = [UpdateCall ''A'' (Str ''201'')]\<rparr>)"
  by (simp add: updateTaskCustomField_def processTask_def loadMapping_def parse_def trim_def
      js_set_def js_get_def always_rejected_def initial_state_def task_with_def field_with_def
      selected_gid_def)

text \<open>
  C9, amended: the pause of 200 ms is performed after every attempted update whose PUT
  request gets an HTTP response, whether that response is ok or not, and is never performed
  for a task that is skipped. In full: when the request gets an HTTP response, a task adds to
  the trace either nothing or the update call immediately followed by the pause; a task
  whose first entry for the old field has a selected value \<open>k\<close> with a truthy mapped value
  adds the update call and then the pause, or the update call alone when the request is
  rejected; and a task with no custom fields, with no entry for the old field, with an old
  field without selected value, or with a falsy mapped value leaves the state as it was.
\<close>

theorem pause_follows_answered_update:
  "(remote (tasksAttempted s) \<noteq> FetchRejected \<longrightarrow>
      (\<exists>s'. processTask OLD mapping remote s t = Inr s'
         \<and> (trace s' = trace s
              \<or> (\<exists>v. trace s' = trace s @ [UpdateCall (task_gid t) v, Pause 200]))))
   \<and> (custom_fields t = Some (pre @ f # post)
        \<and> (\<forall>g \<in> set pre. Some (field_gid g) \<noteq> OLD) \<and> Some (field_gid f) = OLD
        \<and> selected_gid f = Some k \<and> truthy (js_get mapping k) \<longrightarrow>
      (if remote (tasksAttempted s) = FetchRejected
       then \<exists>s'. processTask OLD mapping remote s t = Inl (FetchFailed, s')
              \<and> trace s' = trace s @ [UpdateCall (task_gid t) (js_get mapping k)]
       else \<exists>s'. processTask OLD mapping remote s t = Inr s'
              \<and> trace s' = trace s @ [UpdateCall (task_gid t) (js_get mapping k), Pause 200]))
   \<and> (custom_fields t = None \<or> custom_fields t = Some []
        \<or> (custom_fields t = Some fs \<and> (\<forall>g \<in> set fs. Some (field_gid g) \<noteq> OLD))
        \<or> (custom_fields t = Some (pre @ f # post)
             \<and> (\<forall>g \<in> set pre. Some (field_gid g) \<noteq> OLD) \<and> Some (field_gid f) = OLD
             \<and> (selected_gid f = None
                  \<or> (selected_gid f = Some k \<and> \<not> truthy (js_get mapping k)))) \<longrightarrow>
      processTask OLD mapping remote s t = Inr s)"
proof (intro conjI impI)
  assume "remote (tasksAttempted s) \<noteq> FetchRejected"
  then show "\<exists>s'. processTask OLD mapping remote s t = Inr s'
         \<and> (trace s' = trace s
              \<or> (\<exists>v. trace s' = trace s @ [UpdateCall (task_gid t) v, Pause 200]))"
    using processTask_cases [of OLD mapping remote s t] by auto
next
  assume h: "custom_fields t = Some (pre @ f # post)
        \<and> (\<forall>g \<in> set pre. Some (field_gid g) \<noteq> OLD) \<and> Some (field_gid f) = OLD
        \<and> selected_gid f = Some k \<and> truthy (js_get mapping k)"
  from h have fs: "custom_fields t = Some (pre @ f # post)" by (elim conjE)
  from h have pre: "\<forall>g \<in> set pre. Some (field_gid g) \<noteq> OLD" by (elim conjE)
  from h have f: "Some (field_gid f) = OLD" by (elim conjE)
  from h have sel: "selected_gid f = Some k" by (elim conjE)
  from h have tr: "truthy (js_get mapping k)" by (elim conjE)
  have find: "findOldEnumGid OLD (pre @ f # post) = Some k"
    using findOldEnumGid_first [OF pre f] sel by simp
  show "if remote (tasksAttempted s) = FetchRejected
       then \<exists>s'. processTask OLD mapping remote s t = Inl (FetchFailed, s')
              \<and> trace s' = trace s @ [UpdateCall (task_gid t) (js_get mapping k)]
       else \<exists>s'. processTask OLD mapping remote s t = Inr s'
              \<and> trace s' = trace s @ [UpdateCall (task_gid t) (js_get mapping k), Pause 200]"
    using processTask_attempt [OF fs find tr, of remote s]
    by (cases "remote (tasksAttempted s) = FetchRejected") simp_all
next
  assume "custom_fields t = None \<or> custom_fields t = Some []
        \<or> (custom_fields t = Some fs \<and> (\<forall>g \<in> set fs. Some (field_gid g) \<noteq> OLD))
        \<or> (custom_fields t = Some (pre @ f # post)
             \<and> (\<forall>g \<in> set pre. Some (field_gid g) \<noteq> OLD) \<and> Some (field_gid f) = OLD
             \<and> (selected_gid f = None
                  \<or> (selected_gid f = Some k \<and> \<not> truthy (js_get mapping k))))"
  then show "processTask OLD mapping remote s t = Inr s"
  proof (elim disjE conjE)
    assume "custom_fields t = None"
    then show ?thesis by (simp add: processTask_no_fields)
  next
    assume "custom_fields t = Some []"
    then show ?thesis by (simp add: processTask_no_fields)
  next
    assume fs: "custom_fields t = Some fs"
      and absent: "\<forall>g \<in> set fs. Some (field_gid g) \<noteq> OLD"
    from absent have "findOldEnumGid OLD fs = None" by (rule findOldEnumGid_absent)
    with fs show ?thesis by (rule processTask_no_old_value)
  next
    assume fs: "custom_fields t = Some (pre @ f # post)"
      and pre: "\<forall>g \<in> set pre. Some (field_gid g) \<noteq> OLD"
      and f: "Some (field_gid f) = OLD" and sel: "selected_gid f = None"
    have "findOldEnumGid OLD (pre @ f # post) = None"
      using findOldEnumGid_first [OF pre f] sel by simp
    with fs show ?thesis by (rule processTask_no_old_value)
  next
    assume fs: "custom_fields t = Some (pre @ f # post)"
      and pre: "\<forall>g \<in> set pre. Some (field_gid g) \<noteq> OLD"
      and f: "Some (field_gid f) = OLD" and sel: "selected_gid f = Some k"
      and falsy: "\<not> truthy (js_get mapping k)"
    have "findOldEnumGid OLD (pre @ f # post) = Some k"
      using findOldEnumGid_first [OF pre f] sel by simp
    with fs show ?thesis using falsy by (rule processTask_no_mapping)
  qed
qed

text \<open>
  C9, witness: the update of task A is answered with a response that is not ok, and the
  pause follows all the same; task B has no entry for the old field, and nothing is added to
  the trace.
\<close>

theorem pause_follows_answered_update_witness:
  "processTask (Some ''F_OLD'')
     (loadMapping ((=) CHR '' '') [(Unquoted ''101'', Unquoted ''201'')]) always_not_ok
     initial_state (task_with ''A'' [field_with ''F_OLD'' (Some ''101'')])
   = Inr \<lparr>tasksAttempted = 1, tasksUpdated = 0,
          trace = [UpdateCall ''A'' (Str ''201''), Pause 200]\<rparr>
   \<and> processTask (Some ''F_OLD'')
     (loadMapping ((=) CHR '' '') [(Unquoted ''101'', Unquoted ''201'')]) always_not_ok
     initial_state (task_with ''B'' [field_with ''F_NEW'' (Some ''101'')])
   = Inr initial_state"
  using pause_follows_answered_update
          [where remote = always_not_ok and s = initial_state and OLD = "Some ''F_OLD''"
             and mapping = "loadMapping ((=) CHR '' '') [(Unquoted ''101'', Unquoted ''201'')]"
             and t = "task_with ''A'' [field_with ''F_OLD'' (Some ''101'')]"
             and pre = "[]" and f = "field_with ''F_OLD'' (Some ''101'')" and post = "[]"
             and k = "''101''" and fs = "[]"]
        pause_follows_answered_update
          [where remote = always_not_ok and s = initial_state and OLD = "Some ''F_OLD''"
             and mapping = "loadMapping ((=) CHR '' '') [(Unquoted ''101'', Unquoted ''201'')]"
             and t = "task_with ''B'' [field_with ''F_NEW'' (Some ''101'')]"
             and pre = "[]" and f = "field_with ''F_NEW'' (Some ''101'')" and post = "[]"
             and k = "''101''" and fs = "[field_with ''F_NEW'' (Some ''101'')]"]
  by (simp add: updateTaskCustomField_def processTask_def loadMapping_def parse_def trim_def
      js_set_def js_get_def always_not_ok_def initial_state_def task_with_def field_with_def
      selected_gid_def)

text \<open>
  C10: when \<open>f\<close> is the first entry of the list whose identifier is the old field's, the
  old value is the selected value of \<open>f\<close> alone, whatever follows \<open>f\<close>. When \<open>f\<close> has the
  selected value \<open>k\<close>, the mapping is looked up at \<open>k\<close>: a truthy mapped value is the new
  value of the one update call made for the task, and with a falsy one the task is skipped.
  When \<open>f\<close> has no selected value the task is skipped, even when a later entry for the old
  field has one. In all cases the driver does for the task what it would do were \<open>f\<close> the
  only entry.
\<close>

theorem first_old_field_entry_decides:
  assumes "\<forall>g \<in> set pre. Some (field_gid g) \<noteq> OLD" and "Some (field_gid f) = OLD"
  shows "findOldEnumGid OLD (pre @ f # post) = selected_gid f
       \<and> processTask OLD mapping remote s (t\<lparr>custom_fields := Some (pre @ f # post)\<rparr>)
           = processTask OLD mapping remote s (t\<lparr>custom_fields := Some [f]\<rparr>)
       \<and> (selected_gid f = None \<longrightarrow>
            processTask OLD mapping remote s (t\<lparr>custom_fields := Some (pre @ f # post)\<rparr>)
              = Inr s)
       \<and> (selected_gid f = Some k \<and> truthy (js_get mapping k) \<longrightarrow>
            (\<exists>pause. (pause = [] \<or> pause = [Pause 200])
               \<and> trace (final_state
                    (processTask OLD mapping remote s
                       (t\<lparr>custom_fields := Some (pre @ f # post)\<rparr>)))
                  = trace s @ UpdateCall (task_gid t) (js_get mapping k) # pause))
       \<and> (selected_gid f = Some k \<and> \<not> truthy (js_get mapping k) \<longrightarrow>
            processTask OLD mapping remote s (t\<lparr>custom_fields := Some (pre @ f # post)\<rparr>)
              = Inr s)"
proof -
  let ?t = "t\<lparr>custom_fields := Some (pre @ f # post)\<rparr>"
  have fs: "custom_fields ?t = Some (pre @ f # post)" by simp
  have a: "findOldEnumGid OLD (pre @ f # post) = selected_gid f"
    using assms by (rule findOldEnumGid_first)
  have c: "processTask OLD mapping remote s ?t
           = processTask OLD mapping remote s (t\<lparr>custom_fields := Some [f]\<rparr>)"
    using assms(2) by (simp add: processTask_def a Let_def split: option.splits)
  have d: "selected_gid f = None \<longrightarrow> processTask OLD mapping remote s ?t = Inr s"
    by (simp add: processTask_def a)
  have e: "selected_gid f = Some k \<and> truthy (js_get mapping k) \<longrightarrow>
            (\<exists>pause. (pause = [] \<or> pause = [Pause 200])
               \<and> trace (final_state (processTask OLD mapping remote s ?t))
                  = trace s @ UpdateCall (task_gid t) (js_get mapping k) # pause)"
  proof
    assume h: "selected_gid f = Some k \<and> truthy (js_get mapping k)"
    from h a have find: "findOldEnumGid OLD (pre @ f # post) = Some k" by simp
    from h have tr: "truthy (js_get mapping k)" by (rule conjunct2)
    show "\<exists>pause. (pause = [] \<or> pause = [Pause 200])
               \<and> trace (final_state (processTask OLD mapping remote s ?t))
                  = trace s @ UpdateCall (task_gid t) (js_get mapping k) # pause"
      using processTask_attempt [OF fs find tr, of remote s]
      by (cases "remote (tasksAttempted s) = FetchRejected") simp_all
  qed
  have g: "selected_gid f = Some k \<and> \<not> truthy (js_get mapping k) \<longrightarrow>
            processTask OLD mapping remote s ?t = Inr s"
  proof
    assume h: "selected_gid f = Some k \<and> \<not> truthy (js_get mapping k)"
    from h a have find: "findOldEnumGid OLD (pre @ f # post) = Some k" by simp
    from h have falsy: "\<not> truthy (js_get mapping k)" by (rule conjunct2)
    from fs find falsy show "processTask OLD mapping remote s ?t = Inr s"
      by (rule processTask_no_mapping)
  qed
  from a c d e g show ?thesis by (intro conjI)
qed

text \<open>
  C10, witness: two tasks with two entries for the old field each, and a mapping that has
  both values. In the first task the first entry has the value \<open>101\<close> and the later one
  \<open>102\<close>: the update is made with the new value mapped from \<open>101\<close>. In the second the
  first entry has no value and the later one has \<open>101\<close>: the task is skipped.
\<close>

theorem first_old_field_entry_decides_witness:
  "processTask (Some ''F_OLD'')
     (loadMapping ((=) CHR '' '')
        [(Unquoted ''101'', Unquoted ''201''), (Unquoted ''102'', Unquoted ''202'')])
     always_ok initial_state
     (task_with ''E'' [field_with ''F_NEW'' (Some ''7''), field_with ''F_OLD'' (Some ''101''),
                      field_with ''F_OLD'' (Some ''102'')])
   = Inr \<lparr>tasksAttempted = 1, tasksUpdated = 0,
          trace = [UpdateCall ''E'' (Str ''201''), Pause 200]\<rparr>
   \<and> findOldEnumGid (Some ''F_OLD'')
       [field_with ''F_NEW'' (Some ''7''), field_with ''F_OLD'' None,
        field_with ''F_OLD'' (Some ''101'')] = None
   \<and> processTask (Some ''F_OLD'')
       (loadMapping ((=) CHR '' '')
          [(Unquoted ''101'', Unquoted ''201''), (Unquoted ''102'', Unquoted ''202'')])
       always_ok initial_state
       (task_with ''E'' [field_with ''F_NEW'' (Some ''7''), field_with ''F_OLD'' None,
                        field_with ''F_OLD'' (Some ''101'')])
     = Inr initial_state"
  using first_old_field_entry_decides
          [where pre = "[field_with ''F_NEW'' (Some ''7'')]"
             and f = "field_with ''F_OLD'' (Some ''101'')"
             and post = "[field_with ''F_OLD'' (Some ''102'')]" and OLD = "Some ''F_OLD''"
             and mapping = "loadMapping ((=) CHR '' '')
                  [(Unquoted ''101'', Unquoted ''201''), (Unquoted ''102'', Unquoted ''202'')]"
             and remote = always_ok and s = initial_state and t = "task_with ''E'' []"
             and k = "''101''"]
        first_old_field_entry_decides
          [where pre = "[field_with ''F_NEW'' (Some ''7'')]" and f = "field_with ''F_OLD'' None"
             and post = "[field_with ''F_OLD'' (Some ''101'')]" and OLD = "Some ''F_OLD''"
             and mapping = "loadMapping ((=) CHR '' '')
                  [(Unquoted ''101'', Unquoted ''201''), (Unquoted ''102'', Unquoted ''202'')]"
             and remote = always_ok and s = initial_state and t = "task_with ''E'' []"
             and k = "''101''"]
  by (simp add: updateTaskCustomField_def processTask_def loadMapping_def parse_def trim_def
      js_set_def js_get_def always_ok_def initial_state_def task_with_def field_with_def
      selected_gid_def)

subsection \<open>The driver: a whole run\<close>

text \<open>
  The scenario of the specification: the mapping of \<open>101\<close> to \<open>201\<close> and \<open>102\<close> to
  \<open>202\<close>; task A with the old value \<open>101\<close>, task B without the old field, task C with the
  old field unset, task D with the old value \<open>999\<close>. Only A is updated.
\<close>

lemma scenario_run:
  "main ((=) CHR '' '') (Some ''F_OLD'') ''P'' [(Unquoted ''101'', Unquoted ''201''), (Unquoted ''102'', Unquoted ''202'')]
     [RespOk (page_with
        [task_with ''A'' [field_with ''F_OLD'' (Some ''101'')],
         task_with ''B'' [field_with ''F_NEW'' None],
         task_with ''C'' [field_with ''F_OLD'' None],
         task_with ''D'' [field_with ''F_OLD'' (Some ''999'')]] None)]
     always_ok
   = Some (Inr \<lparr>tasksAttempted = 1, tasksUpdated = 0,
                trace = [UpdateCall ''A'' (Str ''201''), Pause 200]\<rparr>)"
  by (simp add: main_def getAllProjectTasks_def page_with_def cursor_def first_url_def
      updateTaskCustomField_def processTask_def loadMapping_def parse_def trim_def
      js_set_def js_get_def always_ok_def initial_state_def task_with_def field_with_def
      selected_gid_def object_prototype_names_def)

text \<open>
  In a run in which no PUT request is rejected every task is visited, and the trace of the
  run pairs each update call with the pause that follows it.
\<close>

lemma well_paused_append:
  "well_paused xs \<Longrightarrow> well_paused ys \<Longrightarrow> well_paused (xs @ ys)"
  by (induction xs rule: well_paused.induct) simp_all

lemma processTask_well_paused:
  assumes "remote (tasksAttempted s) \<noteq> FetchRejected" and "well_paused (trace s)"
  shows "\<exists>s'. processTask OLD mapping remote s t = Inr s' \<and> well_paused (trace s')"
  using processTask_cases [of OLD mapping remote s t] assms
  by (auto simp: well_paused_append)

lemma main_loop_well_paused:
  assumes "\<forall>n. remote n \<noteq> FetchRejected" and "well_paused (trace s)"
  shows "\<exists>s'. main_loop OLD mapping remote s tasks = Inr s' \<and> well_paused (trace s')"
  using assms(2)
proof (induction tasks arbitrary: s)
  case Nil
  then show ?case by simp
next
  case (Cons t tasks)
  from assms(1) have ok: "remote (tasksAttempted s) \<noteq> FetchRejected" by simp
  from processTask_well_paused [where remote = remote and s = s and OLD = OLD
      and mapping = mapping and t = t, OF ok Cons.prems]
  obtain s1 where s1: "processTask OLD mapping remote s t = Inr s1" "well_paused (trace s1)"
    by blast
  from Cons.IH [OF s1(2)] s1(1) show ?case by simp
qed

end
